theory Spec2Isabelle
  imports Complex_Main
begin

section \<open>Decoded JSON values and the dashboard helpers\<close>

text \<open>
  The dashboard receives its data as decoded JSON. A value is \<open>null\<close>, a boolean, a
  number or a string; an object is a finite map from keys to values, and a key that is
  missing reads as \<open>undefined\<close>, which is \<open>None\<close> here. Numbers are taken as reals
  (JSON has neither NaN nor the infinities); a numeric result that is NaN in the source
  is \<open>None\<close> of type \<open>real option\<close>.
\<close>

datatype jsval = JNull | JBool bool | JNum real | JStr string

type_synonym jsobj = "string \<rightharpoonup> jsval"

text \<open>\<open>pick(obj, keys)\<close>: the value of the first key that is not \<open>undefined\<close>.\<close>

fun pick :: "jsobj \<Rightarrow> string list \<Rightarrow> jsval option" where
  "pick obj [] = None"
| "pick obj (k # keys) = (case obj k of Some v \<Rightarrow> Some v | None \<Rightarrow> pick obj keys)"

text \<open>\<open>!!v\<close>: undefined, null, false, 0 and the empty string are falsy.\<close>

fun truthy :: "jsval option \<Rightarrow> bool" where
  "truthy None = False"
| "truthy (Some JNull) = False"
| "truthy (Some (JBool b)) = b"
| "truthy (Some (JNum r)) = (r \<noteq> 0)"
| "truthy (Some (JStr s)) = (s \<noteq> [])"

text \<open>
  \<open>Number(v)\<close>. The conversion of a string is the language's own StringToNumber, which is
  no code of this repository: it is the parameter \<open>str_num\<close>, and every result below
  holds for each choice of it.
\<close>

fun Number_js :: "(string \<Rightarrow> real option) \<Rightarrow> jsval option \<Rightarrow> real option" where
  "Number_js str_num None = None"
| "Number_js str_num (Some JNull) = Some 0"
| "Number_js str_num (Some (JBool b)) = Some (if b then 1 else 0)"
| "Number_js str_num (Some (JNum r)) = Some r"
| "Number_js str_num (Some (JStr s)) = str_num s"

subsection \<open>escapeHtml\<close>

text \<open>
  \<open>String.prototype.replaceAll\<close> with a string pattern: the text is scanned from the
  left, each occurrence is replaced, and the replacement is not scanned again.
  (The empty pattern is not used by the code and leaves the text as it is here.)
\<close>

function replaceAll :: "string \<Rightarrow> string \<Rightarrow> string \<Rightarrow> string" where
  "replaceAll pat rep [] = []"
| "replaceAll pat rep (c # cs) =
     (if pat \<noteq> [] \<and> take (length pat) (c # cs) = pat
      then rep @ replaceAll pat rep (drop (length pat) (c # cs))
      else c # replaceAll pat rep cs)"
  by pat_completeness auto
termination
  by (relation "measure (\<lambda>(pat, rep, s). length s)") auto

text \<open>\<open>escapeHtml(str)\<close>, applied to the string \<open>String(str)\<close>.\<close>

definition escapeHtml :: "string \<Rightarrow> string" where
  "escapeHtml str =
     replaceAll [CHR 0x27] ''&#039;''
       (replaceAll [CHR 0x22] ''&quot;''
         (replaceAll ''>'' ''&gt;''
           (replaceAll ''<'' ''&lt;''
             (replaceAll ''&'' ''&amp;'' str))))"

text \<open>The entity that stands for one character after all five passes.\<close>

definition html_entity :: "char \<Rightarrow> string" where
  "html_entity c =
     (if c = CHR ''&'' then ''&amp;''
      else if c = CHR ''<'' then ''&lt;''
      else if c = CHR ''>'' then ''&gt;''
      else if c = CHR 0x22 then ''&quot;''
      else if c = CHR 0x27 then ''&#039;''
      else [c])"

subsection \<open>Environment filter\<close>

text \<open>\<open>v ?? d\<close>: the default replaces \<open>undefined\<close> and \<open>null\<close> only.\<close>

fun nullish :: "jsval option \<Rightarrow> jsval \<Rightarrow> jsval" where
  "nullish None d = d"
| "nullish (Some JNull) d = d"
| "nullish (Some v) d = v"

text \<open>
  \<open>v.toString()\<close> on a value that is neither \<open>undefined\<close> nor \<open>null\<close>. The rendering
  of a number is the language's own and is the parameter \<open>num_str\<close>.
\<close>

fun toString_js :: "(real \<Rightarrow> string) \<Rightarrow> jsval \<Rightarrow> string" where
  "toString_js num_str (JStr s) = s"
| "toString_js num_str (JNum r) = num_str r"
| "toString_js num_str (JBool b) = (if b then ''true'' else ''false'')"
| "toString_js num_str JNull = ''null''"

text \<open>
  A regular expression that is a literal text with the flag \<open>i\<close>: the test succeeds when
  the text occurs somewhere, the letters A to Z compared without case.
\<close>

definition lower_ascii :: "char \<Rightarrow> char" where
  "lower_ascii c =
     (case map_of (zip ''ABCDEFGHIJKLMNOPQRSTUVWXYZ'' ''abcdefghijklmnopqrstuvwxyz'') c of
        Some l \<Rightarrow> l
      | None \<Rightarrow> c)"

fun occurs_in :: "string \<Rightarrow> string \<Rightarrow> bool" where
  "occurs_in pat [] = (pat = [])"
| "occurs_in pat (c # cs) = (take (length pat) (c # cs) = pat \<or> occurs_in pat cs)"

definition regex_test_i :: "string \<Rightarrow> string \<Rightarrow> bool" where
  "regex_test_i lit s = occurs_in (map lower_ascii lit) (map lower_ascii s)"

definition inferEnv :: "(real \<Rightarrow> string) \<Rightarrow> jsobj \<Rightarrow> string" where
  "inferEnv num_str item =
     (let name = toString_js num_str (nullish (pick item [''name'', ''service_name'']) (JStr []));
          url = toString_js num_str (nullish (pick item [''url'']) (JStr []))
      in if regex_test_i ''(UAT)'' name \<or> regex_test_i ''certwebservices'' url
         then ''uat'' else ''prod'')"

text \<open>
  \<open>filterByEnv(items, env)\<close>; \<open>env\<close> is a string or absent (\<open>None\<close>), and \<open>!env\<close> holds for
  the absent and for the empty string.
\<close>

definition filterByEnv :: "(real \<Rightarrow> string) \<Rightarrow> jsobj list \<Rightarrow> string option \<Rightarrow> jsobj list" where
  "filterByEnv num_str items env =
     (case env of
        None \<Rightarrow> items
      | Some e \<Rightarrow>
          if e = [] \<or> e = ''all'' then items
          else filter (\<lambda>it. inferEnv num_str it = e) items)"

subsection \<open>Top statistics and the status rank\<close>

definition DEGRADED_MS :: real where
  "DEGRADED_MS = 1500"

record top_stats =
  svcCount :: int
  upCount :: int
  downCount :: int
  degradedCount :: int

definition computeTopStats :: "(string \<Rightarrow> real option) \<Rightarrow> jsobj list \<Rightarrow> top_stats" where
  "computeTopStats str_num items =
     (let svcCount = int (length items);
          upCount = int (length (filter (\<lambda>x. truthy (pick x [''is_up'', ''ok'', ''up''])) items));
          downCount = svcCount - upCount;
          degradedCount = int (length (filter (\<lambda>it.
             let up = truthy (pick it [''is_up'', ''ok'', ''up'']);
                 ms = Number_js str_num (pick it [''last_ms'', ''duration_ms'', ''ms''])
             in up \<and> (case ms of None \<Rightarrow> False | Some m \<Rightarrow> DEGRADED_MS \<le> m)) items))
      in \<lparr>svcCount = svcCount, upCount = upCount, downCount = downCount,
          degradedCount = degradedCount\<rparr>)"




section \<open>Probe history: buckets and the summary line\<close>

text \<open>
  A probe of the history response: \<open>ts\<close> is the instant \<open>new Date(p.ts).getTime()\<close> in
  milliseconds, \<open>ok\<close> the outcome, \<open>duration_ms\<close> the latency, absent (\<open>null\<close>) when the
  transport failed. Every \<open>ts\<close> is a valid date.
\<close>

record probe =
  ts :: int
  ok :: bool
  duration_ms :: "real option"

record bucket_acc =
  sumMs :: real
  count :: nat
  okCount :: nat

definition BUCKET_MINUTES :: int where
  "BUCKET_MINUTES = 5"

definition bucketMs :: int where
  "bucketMs = BUCKET_MINUTES * 60 * 1000"

text \<open>\<open>Math.floor(ts / bucketMs) * bucketMs\<close>\<close>

definition bucketStart :: "int \<Rightarrow> int \<Rightarrow> int" where
  "bucketStart w t = \<lfloor>real_of_int t / real_of_int w\<rfloor> * w"

text \<open>The \<open>Map\<close> of the loop keeps its keys in insertion order: an association list.\<close>

fun map_has :: "(int \<times> bucket_acc) list \<Rightarrow> int \<Rightarrow> bool" where
  "map_has [] k = False"
| "map_has ((k', b) # m) k = (k' = k \<or> map_has m k)"

fun map_set :: "(int \<times> bucket_acc) list \<Rightarrow> int \<Rightarrow> bucket_acc \<Rightarrow> (int \<times> bucket_acc) list" where
  "map_set [] k v = [(k, v)]"
| "map_set ((k', b) # m) k v = (if k' = k then (k, v) # m else (k', b) # map_set m k v)"

fun map_get :: "(int \<times> bucket_acc) list \<Rightarrow> int \<Rightarrow> bucket_acc option" where
  "map_get [] k = None"
| "map_get ((k', b) # m) k = (if k' = k then Some b else map_get m k)"

text \<open>
  One round of the loop of \<open>bucketProbes\<close>. The source updates the object held by the map
  in place; here the updated object is stored back under its key. (The entry read by
  \<open>get\<close> is always there: the line before creates it when it is missing.)
\<close>

definition bucket_step :: "int \<Rightarrow> (int \<times> bucket_acc) list \<Rightarrow> probe \<Rightarrow> (int \<times> bucket_acc) list" where
  "bucket_step w byBucket p =
     (let start = bucketStart w (ts p);
          byBucket1 = (if \<not> map_has byBucket start
                       then map_set byBucket start \<lparr>sumMs = 0, count = 0, okCount = 0\<rparr>
                       else byBucket)
      in case map_get byBucket1 start of
           None \<Rightarrow> byBucket1
         | Some b \<Rightarrow>
             let b1 = b\<lparr>count := count b + 1\<rparr>;
                 b2 = (if ok p then b1\<lparr>okCount := okCount b1 + 1\<rparr> else b1);
                 ms = (case duration_ms p of Some d \<Rightarrow> d | None \<Rightarrow> 0);
                 b3 = b2\<lparr>sumMs := sumMs b2 + ms\<rparr>
             in map_set byBucket1 start b3)"

definition byBucket_of :: "int \<Rightarrow> probe list \<Rightarrow> (int \<times> bucket_acc) list" where
  "byBucket_of w probes = foldl (bucket_step w) [] probes"

text \<open>
  The probes counted by the loop: in all buckets together, and in the bucket of one key
  (none when the map has no such key).
\<close>

definition probe_total :: "(int \<times> bucket_acc) list \<Rightarrow> nat" where
  "probe_total m = sum_list (map (\<lambda>(k, b). count b) m)"

definition probe_count :: "(int \<times> bucket_acc) list \<Rightarrow> int \<Rightarrow> nat" where
  "probe_count m k = (case map_get m k of None \<Rightarrow> 0 | Some b \<Rightarrow> count b)"

text \<open>
  The result of \<open>bucketProbes\<close>. A label is the local rendering of the bucket's start; the
  rendering is left out and the start itself stands for it.
\<close>

record bucketed =
  labels :: "int list"
  avgMs :: "real option list"
  successPct :: "real option list"

definition bucketProbes :: "probe list \<Rightarrow> bucketed" where
  "bucketProbes probes =
     (if probes = [] then \<lparr>labels = [], avgMs = [], successPct = []\<rparr>
      else
        let sorted = sort_key fst (byBucket_of bucketMs probes)
        in \<lparr>labels = map fst sorted,
            avgMs = map (\<lambda>(k, b). if count b \<noteq> 0 then Some (sumMs b / real (count b)) else None) sorted,
            successPct = map (\<lambda>(k, b). if count b \<noteq> 0
                                then Some (real (okCount b) / real (count b) * 100) else None) sorted\<rparr>)"

subsection \<open>The summary line\<close>

text \<open>
  \<open>a / b\<close> on numbers. With the divisor 0 the source yields NaN or an infinity and no
  finite number: that outcome is \<open>None\<close>.
\<close>

definition js_div :: "real \<Rightarrow> real \<Rightarrow> real option" where
  "js_div a b = (if b = 0 then None else Some (a / b))"

text \<open>
  The text put into the summary element, before the numbers are rendered with
  \<open>toFixed\<close>: either the message "No probe data in this range." or the line with the
  counts, the success percentage, the average and the 95th percentile. A count that the
  source would print as \<open>undefined\<close> is \<open>None\<close>; a percentage or an average that is not a
  finite number is \<open>None\<close>; a percentile that is not shown is \<open>None\<close>.
\<close>

record summary_line =
  line_probes :: "nat option"
  line_success :: "nat option"
  line_pct :: "real option"
  line_avg :: "real option"
  line_p95 :: "real option"

datatype summary_text = NoProbeData | Line summary_line

text \<open>
  \<open>p.duration_ms\<close> read as a number (\<open>null\<close> counts as 0 in arithmetic; the probes left
  in \<open>withMs\<close> all carry a duration).
\<close>

definition dur :: "probe \<Rightarrow> real" where
  "dur p = (case duration_ms p of Some d \<Rightarrow> d | None \<Rightarrow> 0)"

text \<open>
  \<open>Math.floor(sorted.length * 0.95)\<close>, in exact arithmetic. (The source multiplies in
  binary floating point; \<open>0.95 * n\<close> is a whole number or at least 0.05 away from one,
  far more than the rounding error, so the floor is the same.)
\<close>

definition p95_index :: "nat \<Rightarrow> nat" where
  "p95_index n = nat \<lfloor>real n * 0.95\<rfloor>"

text \<open>\<open>setSummary(probes)\<close>, the summary computed in the browser from the raw probes.\<close>

definition setSummary :: "probe list \<Rightarrow> summary_text" where
  "setSummary probes =
     (if probes = [] then NoProbeData
      else
        let withMs = filter (\<lambda>p. duration_ms p \<noteq> None) probes;
            okCount = length (filter ok probes);
            avg = (if length withMs \<noteq> 0
                   then js_div (foldl (\<lambda>s p. s + dur p) 0 withMs) (real (length withMs))
                   else Some 0);
            sorted = sort_key dur withMs;
            p95 = (if length sorted \<noteq> 0
                   then (let i = p95_index (length sorted)
                         in if i < length sorted then duration_ms (sorted ! i) else None)
                   else None)
        in Line \<lparr>line_probes = Some (length probes), line_success = Some okCount,
                 line_pct = map_option (\<lambda>q. q * 100) (js_div (real okCount) (real (length probes))),
                 line_avg = avg, line_p95 = p95\<rparr>)"

text \<open>
  The \<open>summary\<close> object of the history response. A field that is missing is \<open>None\<close>,
  and so is an \<open>avg_ms\<close> or a \<open>p95_ms\<close> that is \<open>null\<close>; the two counts, when
  present, are natural numbers.
\<close>

record api_summary =
  total_probes :: "nat option"
  success_count :: "nat option"
  avg_ms :: "real option"
  p95_ms :: "real option"

text \<open>
  \<open>setSummaryFromApi(summary)\<close>; the argument \<open>None\<close> is a \<open>summary\<close> that is \<open>null\<close> or
  \<open>undefined\<close>.
\<close>

definition setSummaryFromApi :: "api_summary option \<Rightarrow> summary_text" where
  "setSummaryFromApi summary =
     (case summary of
        None \<Rightarrow> NoProbeData
      | Some s \<Rightarrow>
          if total_probes s = Some 0 then NoProbeData
          else
            let pct = (case total_probes s of
                         Some n \<Rightarrow>
                           (if n \<noteq> 0
                            then (case success_count s of
                                    Some k \<Rightarrow> map_option (\<lambda>q. q * 100) (js_div (real k) (real n))
                                  | None \<Rightarrow> None)
                            else Some 0)
                       | None \<Rightarrow> Some 0)
            in Line \<lparr>line_probes = total_probes s, line_success = success_count s,
                     line_pct = pct, line_avg = avg_ms s, line_p95 = p95_ms s\<rparr>)"

section \<open>The alerting state machine\<close>

datatype status = UP | DOWN

datatype event = WentDown | Recovered

text \<open>
  Modelled from the spec: the \<open>TargetState\<close> record of the worker (the worker's code is
  not among the sources; only its description in \<open>docs/ALERTS.md\<close> is). The fields are
  those the transition function and the dispatcher read or write; instants are seconds.
\<close>

record target_state =
  current :: status
  pendingRecovery :: bool
  consecutiveUpCount :: nat
  lastAlertSentAt :: "real option"

text \<open>
  Modelled from the spec: the state in which a target starts, UP with no recovery pending
  and no alert sent (the worker's start-up code is missing).
\<close>

definition initial_state :: target_state where
  "initial_state =
     \<lparr>current = UP, pendingRecovery = False, consecutiveUpCount = 0, lastAlertSentAt = None\<rparr>"

text \<open>
  Modelled from the spec: the transition function of the \<open>TargetStateMachine\<close>, section
  4.1 (the worker's implementation is missing). Its argument is \<open>r.ok\<close> of the new probe
  result; it returns the new state and the event emitted, if any.
\<close>

definition transition :: "target_state \<Rightarrow> bool \<Rightarrow> target_state \<times> event option" where
  "transition s r_ok =
     (if \<not> r_ok then
        (s\<lparr>current := DOWN, pendingRecovery := False, consecutiveUpCount := 0\<rparr>,
         if current s = UP then Some WentDown else None)
      else if current s = DOWN then
        (s\<lparr>current := UP, pendingRecovery := True, consecutiveUpCount := 1\<rparr>, None)
      else if pendingRecovery s then
        (let s1 = s\<lparr>consecutiveUpCount := consecutiveUpCount s + 1\<rparr>
         in if 2 \<le> consecutiveUpCount s1
            then (s1\<lparr>pendingRecovery := False\<rparr>, Some Recovered)
            else (s1, None))
      else (s, None))"

text \<open>
  Modelled from the spec: probes are applied to the state of a target one after the
  other, in arrival order (section 5; the worker's loop is missing). \<open>run_events\<close> lists
  the event of each probe, \<open>run_state\<close> gives the state after the last one.
\<close>

fun run_events :: "target_state \<Rightarrow> bool list \<Rightarrow> event option list" where
  "run_events s [] = []"
| "run_events s (r # rs) = snd (transition s r) # run_events (fst (transition s r)) rs"

fun run_state :: "target_state \<Rightarrow> bool list \<Rightarrow> target_state" where
  "run_state s [] = s"
| "run_state s (r # rs) = run_state (fst (transition s r)) rs"

text \<open>
  Modelled from the spec: the configuration the dispatcher consumes, the webhook URL
  (alerts are disabled when it is absent) and the alert cooldown in seconds, 300 by
  default (the worker's configuration loading is missing).
\<close>

record alert_config =
  webhookUrl :: "string option"
  cooldown :: real

definition default_cooldown :: real where
  "default_cooldown = 300"

text \<open>
  Modelled from the spec: \<open>onWentDown\<close> of the \<open>AlertDispatcher\<close>, section 4.2 (the
  worker's dispatcher is missing). It is called once for each \<open>WentDown\<close> event, at the
  instant \<open>now\<close>; the result is the state and whether a DOWN notification was sent.
\<close>

definition onWentDown :: "alert_config \<Rightarrow> target_state \<Rightarrow> real \<Rightarrow> target_state \<times> bool" where
  "onWentDown cfg s now =
     (if webhookUrl cfg = None then (s, False)
      else case lastAlertSentAt s of
             None \<Rightarrow> (s\<lparr>lastAlertSentAt := Some now\<rparr>, True)
           | Some t \<Rightarrow>
               if now - t < cooldown cfg then (s, False)
               else (s\<lparr>lastAlertSentAt := Some now\<rparr>, True))"

text \<open>
  Modelled from the spec: \<open>onRecovered\<close> of the \<open>AlertDispatcher\<close>, never throttled and
  leaving \<open>lastAlertSentAt\<close> as it is (the worker's dispatcher is missing).
\<close>

definition onRecovered :: "alert_config \<Rightarrow> target_state \<Rightarrow> real \<Rightarrow> target_state \<times> bool" where
  "onRecovered cfg s now = (if webhookUrl cfg = None then (s, False) else (s, True))"

text \<open>
  Modelled from the spec: the DOWN notifications sent for a series of \<open>WentDown\<close> events
  of one target, given by their instants (the worker's loop is missing).
\<close>

fun down_alerts :: "alert_config \<Rightarrow> target_state \<Rightarrow> real list \<Rightarrow> nat" where
  "down_alerts cfg s [] = 0"
| "down_alerts cfg s (now # rest) =
     (if snd (onWentDown cfg s now) then 1 else 0) + down_alerts cfg (fst (onWentDown cfg s now)) rest"

section \<open>Properties of the dashboard helpers\<close>

subsection \<open>escapeHtml\<close>

lemma replaceAll_single:
  "replaceAll [p] rep s = concat (map (\<lambda>c. if c = p then rep else [c]) s)"
  by (induction s) simp_all

lemma escapeHtml_concat: "escapeHtml s = concat (map html_entity s)"
  unfolding escapeHtml_def replaceAll_single
  by (induction s) (simp_all add: html_entity_def)

lemma html_entity_chars:
  "CHR ''<'' \<notin> set (html_entity c) \<and> CHR ''>'' \<notin> set (html_entity c)
   \<and> CHR 0x22 \<notin> set (html_entity c) \<and> CHR 0x27 \<notin> set (html_entity c)"
  by (simp add: html_entity_def)

text \<open>
  Claim C10. For every input, the string returned by \<open>escapeHtml\<close> contains none of the
  characters \<open><\<close>, \<open>>\<close>, the double quote (0x22) and the single quote (0x27): the result
  is the input with every character replaced by its entity, one character at a time, so
  the five passes never escape an entity a second time (the ampersand is replaced first,
  and the ampersands written by the later passes are left alone). An input that already
  holds an entity is escaped once more, as text: \<open>&lt;\<close> becomes \<open>&amp;lt;\<close>.
\<close>

theorem escapeHtml_no_markup:
  "CHR ''<'' \<notin> set (escapeHtml s) \<and> CHR ''>'' \<notin> set (escapeHtml s)
   \<and> CHR 0x22 \<notin> set (escapeHtml s) \<and> CHR 0x27 \<notin> set (escapeHtml s)
   \<and> escapeHtml s = concat (map html_entity s)
   \<and> html_entity (CHR ''&'') = ''&amp;''
   \<and> escapeHtml ''&lt;'' = ''&amp;lt;''"
proof -
  have "\<And>x. x \<in> set (escapeHtml s) \<Longrightarrow> \<exists>c. x \<in> set (html_entity c)"
    by (auto simp: escapeHtml_concat)
  then have "CHR ''<'' \<notin> set (escapeHtml s)" "CHR ''>'' \<notin> set (escapeHtml s)"
    "CHR 0x22 \<notin> set (escapeHtml s)" "CHR 0x27 \<notin> set (escapeHtml s)"
    using html_entity_chars by blast+
  moreover have "html_entity (CHR ''&'') = ''&amp;''"
    by (simp add: html_entity_def)
  moreover have "escapeHtml ''&lt;'' = ''&amp;lt;''"
    by (simp add: escapeHtml_concat html_entity_def)
  ultimately show ?thesis
    using escapeHtml_concat by blast
qed

subsection \<open>Top statistics\<close>

text \<open>
  Claim C9. For every list of summary items the counters of \<open>computeTopStats\<close> satisfy
  \<open>upCount + downCount = svcCount\<close>, where \<open>svcCount\<close> is the number of items, \<open>upCount\<close>
  the number of items whose up flag is truthy and \<open>downCount\<close> the number of the others
  (each item is counted as exactly one of up or down), and
  \<open>0 \<le> degradedCount \<le> upCount\<close>.
\<close>

theorem computeTopStats_counters:
  "upCount (computeTopStats str_num items) + downCount (computeTopStats str_num items)
     = svcCount (computeTopStats str_num items)
   \<and> svcCount (computeTopStats str_num items) = int (length items)
   \<and> upCount (computeTopStats str_num items)
       = int (length (filter (\<lambda>x. truthy (pick x [''is_up'', ''ok'', ''up''])) items))
   \<and> downCount (computeTopStats str_num items)
       = int (length (filter (\<lambda>x. \<not> truthy (pick x [''is_up'', ''ok'', ''up''])) items))
   \<and> 0 \<le> degradedCount (computeTopStats str_num items)
   \<and> degradedCount (computeTopStats str_num items) \<le> upCount (computeTopStats str_num items)"
proof -
  let ?up = "\<lambda>x. truthy (pick x [''is_up'', ''ok'', ''up''])"
  let ?slow = "\<lambda>it. case Number_js str_num (pick it [''last_ms'', ''duration_ms'', ''ms''])
                      of None \<Rightarrow> False | Some m \<Rightarrow> DEGRADED_MS \<le> m"
  have split: "length (filter ?up items) + length (filter (\<lambda>x. \<not> ?up x) items) = length items"
    by (rule sum_length_filter_compl)
  have "filter (\<lambda>it. ?up it \<and> ?slow it) items = filter ?slow (filter ?up items)"
    by (simp add: conj_commute)
  then have le: "length (filter (\<lambda>it. ?up it \<and> ?slow it) items) \<le> length (filter ?up items)"
    by (metis length_filter_le)
  show ?thesis
    using split le by (simp add: computeTopStats_def Let_def)
qed

subsection \<open>Environment filter\<close>

lemma inferEnv_range: "inferEnv num_str it = ''uat'' \<or> inferEnv num_str it = ''prod''"
  by (simp add: inferEnv_def Let_def)

text \<open>
  Claim C8. \<open>filterByEnv\<close> returns the list unchanged when \<open>env\<close> is absent (or empty) or
  \<open>"all"\<close>; \<open>inferEnv\<close> is total and returns \<open>"uat"\<close> or \<open>"prod"\<close>; and every item occurs in
  the \<open>"prod"\<close> and the \<open>"uat"\<close> selections together exactly as often as in the input,
  and in exactly one of the two: the two selections are disjoint and an item of the input
  is in the first exactly when it is not in the second.
\<close>

theorem filterByEnv_partition:
  "filterByEnv num_str items None = items
   \<and> filterByEnv num_str items (Some []) = items
   \<and> filterByEnv num_str items (Some ''all'') = items
   \<and> (inferEnv num_str it = ''uat'' \<or> inferEnv num_str it = ''prod'')
   \<and> count_list (filterByEnv num_str items (Some ''prod'')) it
       + count_list (filterByEnv num_str items (Some ''uat'')) it = count_list items it
   \<and> (it \<in> set (filterByEnv num_str items (Some ''prod'')))
       = (it \<in> set items \<and> it \<notin> set (filterByEnv num_str items (Some ''uat'')))
   \<and> set (filterByEnv num_str items (Some ''prod''))
       \<inter> set (filterByEnv num_str items (Some ''uat'')) = {}"
proof -
  have cnt: "count_list (filter (\<lambda>x. inferEnv num_str x = ''prod'') items) it
       + count_list (filter (\<lambda>x. inferEnv num_str x = ''uat'') items) it = count_list items it"
    using inferEnv_range [of num_str]
    by (induction items) auto
  have mem: "(it \<in> set (filter (\<lambda>x. inferEnv num_str x = ''prod'') items))
       = (it \<in> set items \<and> it \<notin> set (filter (\<lambda>x. inferEnv num_str x = ''uat'') items))"
    using inferEnv_range [of num_str it] by auto
  have disj: "set (filter (\<lambda>x. inferEnv num_str x = ''prod'') items)
       \<inter> set (filter (\<lambda>x. inferEnv num_str x = ''uat'') items) = {}"
    by auto
  show ?thesis
    using cnt mem disj inferEnv_range [of num_str it]
    by (simp add: filterByEnv_def)
qed

subsection \<open>The degraded classification\<close>


section \<open>Properties of the probe history\<close>

subsection \<open>Bucket counts\<close>

lemma map_has_get: "map_has m k = (map_get m k \<noteq> None)"
  by (induction m) auto

lemma map_get_set: "map_get (map_set m k v) k' = (if k' = k then Some v else map_get m k')"
  by (induction m) auto

lemma map_get_None_keys: "(map_get m k = None) = (k \<notin> set (map fst m))"
proof (induction m)
  case Nil
  then show ?case by simp
next
  case (Cons e m)
  then show ?case by (cases e) simp
qed

lemma map_fst_map_set:
  "map fst (map_set m k v) = (if k \<in> set (map fst m) then map fst m else map fst m @ [k])"
proof (induction m)
  case Nil
  then show ?case by simp
next
  case (Cons e m)
  then show ?case by (cases e) simp
qed

lemma keys_map_set: "set (map fst (map_set m k v)) = insert k (set (map fst m))"
  unfolding map_fst_map_set by auto

lemma distinct_map_set: "distinct (map fst m) \<Longrightarrow> distinct (map fst (map_set m k v))"
  unfolding map_fst_map_set by auto

lemma probe_total_map_set:
  "distinct (map fst m) \<Longrightarrow> probe_total (map_set m k v) + probe_count m k = probe_total m + count v"
proof (induction m)
  case Nil
  then show ?case by (simp add: probe_total_def probe_count_def)
next
  case (Cons e m)
  obtain k' b where e: "e = (k', b)" by (cases e)
  show ?case
  proof (cases "k' = k")
    case True
    then show ?thesis using e by (simp add: probe_total_def probe_count_def)
  next
    case False
    then show ?thesis using e Cons by (simp add: probe_total_def probe_count_def)
  qed
qed

text \<open>The effect of one round of the loop on the entry of each key.\<close>

lemma map_get_bucket_step:
  "map_get (bucket_step w m p) k =
     (if k = bucketStart w (ts p)
      then Some ((case map_get m k of None \<Rightarrow> \<lparr>sumMs = 0, count = 0, okCount = 0\<rparr> | Some b \<Rightarrow> b)
             \<lparr>count := count (case map_get m k of None \<Rightarrow> \<lparr>sumMs = 0, count = 0, okCount = 0\<rparr> | Some b \<Rightarrow> b) + 1,
              okCount := okCount (case map_get m k of None \<Rightarrow> \<lparr>sumMs = 0, count = 0, okCount = 0\<rparr> | Some b \<Rightarrow> b)
                          + (if ok p then 1 else 0),
              sumMs := sumMs (case map_get m k of None \<Rightarrow> \<lparr>sumMs = 0, count = 0, okCount = 0\<rparr> | Some b \<Rightarrow> b)
                          + (case duration_ms p of Some d \<Rightarrow> d | None \<Rightarrow> 0)\<rparr>)
      else map_get m k)"
  by (cases "map_get m (bucketStart w (ts p))")
     (simp_all add: bucket_step_def Let_def map_has_get map_get_set)

lemma probe_count_bucket_step:
  "probe_count (bucket_step w m p) k
     = probe_count m k + (if bucketStart w (ts p) = k then 1 else 0)"
  by (auto simp: probe_count_def map_get_bucket_step split: option.splits)

lemma keys_bucket_step:
  "fst ` set (bucket_step w m p) = insert (bucketStart w (ts p)) (fst ` set m)"
proof -
  have "set (map fst (bucket_step w m p)) = insert (bucketStart w (ts p)) (set (map fst m))"
    by (cases "map_get m (bucketStart w (ts p))")
       (auto simp: bucket_step_def Let_def map_has_get map_get_set keys_map_set map_get_None_keys
             simp del: set_map)
  then show ?thesis by simp
qed

lemma distinct_bucket_step:
  "distinct (map fst m) \<Longrightarrow> distinct (map fst (bucket_step w m p))"
  by (cases "map_get m (bucketStart w (ts p))")
     (auto simp: bucket_step_def Let_def map_has_get map_get_set intro!: distinct_map_set)

lemma probe_total_bucket_step:
  assumes "distinct (map fst m)"
  shows "probe_total (bucket_step w m p) = probe_total m + 1"
proof -
  let ?k = "bucketStart w (ts p)"
  let ?z = "\<lparr>sumMs = 0, count = 0, okCount = 0\<rparr>"
  show ?thesis
  proof (cases "map_get m ?k")
    case None
    let ?m1 = "map_set m ?k ?z"
    have d1: "distinct (map fst ?m1)" using assms by (rule distinct_map_set)
    have t1: "probe_total ?m1 = probe_total m"
      using probe_total_map_set [OF assms, of ?k ?z] None by (simp add: probe_count_def)
    have g1: "map_get ?m1 ?k = Some ?z" by (simp add: map_get_set)
    have gen: "probe_total (map_set ?m1 ?k v) = probe_total m + 1" if "count v = 1" for v
      using probe_total_map_set [OF d1, of ?k v] g1 t1 that by (simp add: probe_count_def)
    show ?thesis
      using None by (simp add: bucket_step_def Let_def map_has_get map_get_set gen)
  next
    case (Some b)
    have gen: "probe_total (map_set m ?k v) = probe_total m + 1" if "count v = count b + 1" for v
      using probe_total_map_set [OF assms, of ?k v] Some that by (simp add: probe_count_def)
    show ?thesis
      using Some by (simp add: bucket_step_def Let_def map_has_get gen)
  qed
qed

lemma foldl_bucket_step:
  "distinct (map fst m) \<Longrightarrow>
     distinct (map fst (foldl (bucket_step w) m probes))
     \<and> probe_total (foldl (bucket_step w) m probes) = probe_total m + length probes
     \<and> probe_count (foldl (bucket_step w) m probes) k
         = probe_count m k + length (filter (\<lambda>p. bucketStart w (ts p) = k) probes)
     \<and> fst ` set (foldl (bucket_step w) m probes)
         = fst ` set m \<union> (\<lambda>p. bucketStart w (ts p)) ` set probes"
proof (induction probes arbitrary: m)
  case Nil
  then show ?case by simp
next
  case (Cons p probes)
  have d: "distinct (map fst (bucket_step w m p))"
    using Cons.prems by (rule distinct_bucket_step)
  show ?case
    using Cons.IH [OF d] Cons.prems
    by (auto simp: probe_total_bucket_step probe_count_bucket_step keys_bucket_step)
qed

lemma bucketStart_div: "bucketStart w t = (t div w) * w"
  by (simp add: bucketStart_def floor_divide_of_int_eq)

lemma bucketStart_interval: "0 < w \<Longrightarrow> bucketStart w t \<le> t \<and> t < bucketStart w t + w"
proof -
  assume w: "0 < w"
  have "t = (t div w) * w + t mod w" by simp
  moreover have "0 \<le> t mod w" "t mod w < w" using w by simp_all
  ultimately show ?thesis unfolding bucketStart_div by linarith
qed

lemma map_insort_key: "map f (insort_key f x xs) = insort (f x) (map f xs)"
  by (induction xs) simp_all

lemma map_sort_key: "map f (sort_key f xs) = sort (map f xs)"
  by (induction xs) (simp_all add: map_insort_key)

text \<open>
  Claim C3. For every list of probes and every bucket width \<open>w\<close>, the loop of
  \<open>bucketProbes\<close> counts each probe in the bucket whose start is
  \<open>floor(t / w) * w\<close> for its instant \<open>t\<close> and in no other: the count of the bucket of
  key \<open>k\<close> is the number of probes whose start is \<open>k\<close>, the keys are pairwise
  different and are exactly the starts of the probes, and the counts of all buckets sum
  to the number of probes. For a positive width the instant lies in
  \<open>[start, start + w)\<close>. The function returns one entry for each bucket, in the order
  of the starts.
\<close>

theorem bucket_counts:
  "probe_total (byBucket_of w probes) = length probes
   \<and> probe_count (byBucket_of w probes) k = length (filter (\<lambda>p. bucketStart w (ts p) = k) probes)
   \<and> distinct (map fst (byBucket_of w probes))
   \<and> fst ` set (byBucket_of w probes) = (\<lambda>p. bucketStart w (ts p)) ` set probes
   \<and> bucketStart w t = (t div w) * w
   \<and> (0 < w \<longrightarrow> bucketStart w t \<le> t \<and> t < bucketStart w t + w)
   \<and> labels (bucketProbes probes) = sort (map fst (byBucket_of bucketMs probes))
   \<and> length (avgMs (bucketProbes probes)) = length (labels (bucketProbes probes))"
proof -
  have base: "distinct (map fst ([] :: (int \<times> bucket_acc) list))" by simp
  note f = foldl_bucket_step [OF base, of w probes k]
  have lab: "labels (bucketProbes probes) = sort (map fst (byBucket_of bucketMs probes))"
    by (simp add: bucketProbes_def Let_def map_sort_key byBucket_of_def)
  have len: "length (avgMs (bucketProbes probes)) = length (labels (bucketProbes probes))"
    by (simp add: bucketProbes_def Let_def)
  show ?thesis
    using f lab len bucketStart_div [of w t] bucketStart_interval [of w t]
    by (simp add: byBucket_of_def probe_total_def probe_count_def)
qed

theorem bucket_counts_witness:
  "(0::int) < bucketMs
   \<and> bucketStart bucketMs 1234567 = 1200000
   \<and> bucketStart bucketMs 1234567 \<le> 1234567 \<and> 1234567 < bucketStart bucketMs 1234567 + bucketMs
   \<and> probe_total (byBucket_of bucketMs
         [\<lparr>ts = 1234567, ok = True, duration_ms = Some 40\<rparr>,
          \<lparr>ts = 1500000, ok = False, duration_ms = None\<rparr>,
          \<lparr>ts = 1499999, ok = True, duration_ms = Some 60\<rparr>]) = 3
   \<and> probe_count (byBucket_of bucketMs
         [\<lparr>ts = 1234567, ok = True, duration_ms = Some 40\<rparr>,
          \<lparr>ts = 1500000, ok = False, duration_ms = None\<rparr>,
          \<lparr>ts = 1499999, ok = True, duration_ms = Some 60\<rparr>]) 1200000 = 2"
proof -
  let ?ps = "[\<lparr>ts = 1234567, ok = True, duration_ms = Some 40\<rparr>,
          \<lparr>ts = 1500000, ok = False, duration_ms = None\<rparr>,
          \<lparr>ts = 1499999, ok = True, duration_ms = Some 60\<rparr>]"
  note bc = bucket_counts [of bucketMs ?ps 1200000 1234567]
  have w: "(0::int) < bucketMs"
    by (simp add: bucketMs_def BUCKET_MINUTES_def)
  have s: "bucketStart bucketMs 1234567 = 1200000"
    by (simp add: bucketStart_div bucketMs_def BUCKET_MINUTES_def)
  have i: "bucketStart bucketMs 1234567 \<le> 1234567 \<and> 1234567 < bucketStart bucketMs 1234567 + bucketMs"
    using bc w by blast
  have t: "probe_total (byBucket_of bucketMs ?ps) = 3"
    using bc by simp
  have "length (filter (\<lambda>p. bucketStart bucketMs (ts p) = 1200000) ?ps) = 2"
    by (simp add: bucketStart_div bucketMs_def BUCKET_MINUTES_def)
  then have c: "probe_count (byBucket_of bucketMs ?ps) 1200000 = 2"
    using bc by simp
  show ?thesis
    using w s i t c by blast
qed

subsection \<open>The average of a bucket\<close>

text \<open>
  Claim C4. The claim says that the average of a bucket is taken over the probes with a
  recorded duration only. The loop of \<open>bucketProbes\<close> adds 0 to \<open>sumMs\<close> for a probe
  without a duration and divides by \<open>count\<close>, the number of all probes of the bucket: a
  bucket holding one probe of 100 ms and one failed probe without a duration reports the
  average 50, while the mean of the recorded durations is 100. (\<open>setSummary\<close>, next to
  it, leaves the probes without a duration out of its average.)
\<close>

theorem bucketProbes_avg_over_all_probes:
  "avgMs (bucketProbes [\<lparr>ts = 1704067200000, ok = True, duration_ms = Some 100\<rparr>,
                        \<lparr>ts = 1704067201000, ok = False, duration_ms = None\<rparr>]) = [Some 50]
   \<and> sum_list (List.map_filter duration_ms
          [\<lparr>ts = 1704067200000, ok = True, duration_ms = Some 100\<rparr>,
           \<lparr>ts = 1704067201000, ok = False, duration_ms = None\<rparr>])
       / real (length (List.map_filter duration_ms
          [\<lparr>ts = 1704067200000, ok = True, duration_ms = Some 100\<rparr>,
           \<lparr>ts = 1704067201000, ok = False, duration_ms = None\<rparr>])) = 100"
  by (simp add: bucketProbes_def byBucket_of_def bucket_step_def bucketStart_div bucketMs_def
      BUCKET_MINUTES_def List.map_filter_simps)

subsection \<open>The 95th percentile\<close>

lemma p95_index_eq: "p95_index n = 19 * n div 20"
proof -
  have "real n * 0.95 = real (19 * n) / real 20" by simp
  then have "\<lfloor>real n * 0.95\<rfloor> = int (19 * n div 20)"
    by (simp only: floor_divide_of_nat_eq)
  then show ?thesis by (simp add: p95_index_def)
qed

lemma p95_index_less: "0 < n \<Longrightarrow> p95_index n < n"
  unfolding p95_index_eq by simp

lemma withMs_durations:
  "map dur (filter (\<lambda>p. duration_ms p \<noteq> None) probes) = List.map_filter duration_ms probes"
  by (induction probes) (auto simp: dur_def List.map_filter_simps split: option.splits)

lemma sorted_withMs_nth:
  assumes "i < length (filter (\<lambda>p. duration_ms p \<noteq> None) probes)"
  shows "duration_ms (sort_key dur (filter (\<lambda>p. duration_ms p \<noteq> None) probes) ! i)
           = Some (sort (List.map_filter duration_ms probes) ! i)"
proof -
  let ?w = "filter (\<lambda>p. duration_ms p \<noteq> None) probes"
  let ?s = "sort_key dur ?w"
  have len: "i < length ?s" using assms by simp
  then have "?s ! i \<in> set ?w" by (metis nth_mem set_sort)
  then have "duration_ms (?s ! i) = Some (dur (?s ! i))"
    by (auto simp: dur_def)
  also have "dur (?s ! i) = map dur ?s ! i" using len by simp
  also have "map dur ?s = sort (List.map_filter duration_ms probes)"
    by (simp only: map_sort_key withMs_durations)
  finally show ?thesis .
qed

text \<open>
  Claim C5. For every list of probes with at least one recorded duration, the summary
  line shows as P95 the element at index \<open>floor(0.95 * n)\<close> of the \<open>n\<close> recorded
  durations sorted ascending, and that index is within the list. For the ten durations
  10, 20, ..., 100 the index is 9 and the P95 is 100.
\<close>

theorem p95_nearest_rank:
  "(List.map_filter duration_ms probes \<noteq> [] \<longrightarrow>
      (\<exists>l. setSummary probes = Line l
         \<and> line_p95 l = Some (sort (List.map_filter duration_ms probes)
               ! nat \<lfloor>real (length (List.map_filter duration_ms probes)) * 0.95\<rfloor>))
      \<and> nat \<lfloor>real (length (List.map_filter duration_ms probes)) * 0.95\<rfloor>
           < length (List.map_filter duration_ms probes))
   \<and> (\<exists>l. setSummary (map (\<lambda>d. \<lparr>ts = 0, ok = True, duration_ms = Some d\<rparr>)
                 [10, 20, 30, 40, 50, 60, 70, 80, 90, 100]) = Line l
         \<and> line_p95 l = Some 100)
   \<and> nat \<lfloor>real 10 * 0.95\<rfloor> = 9"
proof -
  let ?ds = "List.map_filter duration_ms probes"
  let ?w = "filter (\<lambda>p. duration_ms p \<noteq> None) probes"
  have lenw: "length ?w = length ?ds"
    by (metis withMs_durations length_map)
  have gen: "(\<exists>l. setSummary probes = Line l
         \<and> line_p95 l = Some (sort ?ds ! nat \<lfloor>real (length ?ds) * 0.95\<rfloor>))
      \<and> nat \<lfloor>real (length ?ds) * 0.95\<rfloor> < length ?ds" if ne: "?ds \<noteq> []"
  proof -
    have pos: "0 < length ?w" using ne lenw by simp
    then have pne: "probes \<noteq> []" by auto
    have il: "p95_index (length ?w) < length ?w" using pos by (rule p95_index_less)
    have "duration_ms (sort_key dur ?w ! p95_index (length ?w))
           = Some (sort ?ds ! p95_index (length ?w))"
      using il by (rule sorted_withMs_nth)
    moreover have "sort_key dur ?w \<noteq> []"
      using pos by (metis length_sort length_greater_0_conv)
    ultimately have "line_p95 (case setSummary probes of Line l \<Rightarrow> l)
           = Some (sort ?ds ! p95_index (length ?w))"
      using pne pos il by (simp add: setSummary_def Let_def)
    moreover have "\<exists>l. setSummary probes = Line l"
      using pne by (simp add: setSummary_def Let_def)
    ultimately show ?thesis
      using il lenw by (auto simp: p95_index_def)
  qed
  have syn: "\<exists>l. setSummary (map (\<lambda>d. \<lparr>ts = 0, ok = True, duration_ms = Some d\<rparr>)
                 [10, 20, 30, 40, 50, 60, 70, 80, 90, 100]) = Line l
         \<and> line_p95 l = Some 100"
    by (simp add: setSummary_def p95_index_eq dur_def)
  have nine: "nat \<lfloor>real 10 * 0.95\<rfloor> = 9"
    using p95_index_eq [of 10] by (simp add: p95_index_def)
  show ?thesis
    using gen syn nine by blast
qed

theorem p95_nearest_rank_witness:
  "List.map_filter duration_ms
      [\<lparr>ts = 0, ok = True, duration_ms = Some 30\<rparr>, \<lparr>ts = 5, ok = False, duration_ms = None\<rparr>,
       \<lparr>ts = 9, ok = True, duration_ms = Some 20\<rparr>] \<noteq> []
   \<and> (\<exists>l. setSummary
      [\<lparr>ts = 0, ok = True, duration_ms = Some 30\<rparr>, \<lparr>ts = 5, ok = False, duration_ms = None\<rparr>,
       \<lparr>ts = 9, ok = True, duration_ms = Some 20\<rparr>] = Line l \<and> line_p95 l = Some 30)"
proof -
  let ?ps = "[\<lparr>ts = 0, ok = True, duration_ms = Some 30\<rparr>, \<lparr>ts = 5, ok = False, duration_ms = None\<rparr>,
       \<lparr>ts = 9, ok = True, duration_ms = Some 20\<rparr>]"
  have ds: "List.map_filter duration_ms ?ps = [30, 20]"
    by (simp add: List.map_filter_simps)
  have ix: "nat \<lfloor>real (length [30, 20 :: real]) * 0.95\<rfloor> = 1"
    using p95_index_eq [of 2] by (simp add: p95_index_def)
  have "\<exists>l. setSummary ?ps = Line l \<and> line_p95 l = Some (sort [30, 20] ! 1)"
    using p95_nearest_rank [of ?ps] unfolding ds ix by simp
  then show ?thesis
    using ds by simp
qed

subsection \<open>The success percentage\<close>

lemma js_div_None: "(js_div a b = None) = (b = 0)"
  by (simp add: js_div_def)

text \<open>
  Claim C7. The success percentage is \<open>success_count / total_probes\<close> (times 100) only
  when there is at least one probe. With no probe, \<open>setSummary\<close> (an empty list) and
  \<open>setSummaryFromApi\<close> (a summary that is missing or has \<open>total_probes = 0\<close>) show the
  message "No probe data in this range." and no percentage. No division by zero occurs:
  a division with the divisor 0 would leave \<open>None\<close> in the line, and the percentage and
  the average of \<open>setSummary\<close> are never \<open>None\<close>, while the percentage of
  \<open>setSummaryFromApi\<close> is \<open>None\<close> only when \<open>success_count\<close> is missing.
\<close>

theorem uptime_needs_probes:
  "setSummary [] = NoProbeData
   \<and> (probes \<noteq> [] \<longrightarrow>
        (\<exists>l. setSummary probes = Line l
           \<and> line_pct l = Some (real (length (filter ok probes)) / real (length probes) * 100)))
   \<and> setSummaryFromApi None = NoProbeData
   \<and> (total_probes s = Some 0 \<longrightarrow> setSummaryFromApi (Some s) = NoProbeData)
   \<and> (total_probes s = Some n \<and> 0 < n \<and> success_count s = Some k \<longrightarrow>
        (\<exists>l. setSummaryFromApi (Some s) = Line l
           \<and> line_pct l = Some (real k / real n * 100)))
   \<and> (js_div a b = None) = (b = 0)
   \<and> (setSummary probes = Line l \<longrightarrow> line_pct l \<noteq> None \<and> line_avg l \<noteq> None)
   \<and> (setSummaryFromApi (Some s) = Line l \<and> line_pct l = None \<longrightarrow> success_count s = None)"
proof -
  have a: "setSummary [] = NoProbeData"
    by (simp add: setSummary_def)
  have b: "\<exists>l. setSummary probes = Line l
           \<and> line_pct l = Some (real (length (filter ok probes)) / real (length probes) * 100)"
    if "probes \<noteq> []"
    using that by (simp add: setSummary_def Let_def js_div_def)
  have c: "setSummaryFromApi None = NoProbeData"
    by (simp add: setSummaryFromApi_def)
  have d: "setSummaryFromApi (Some s) = NoProbeData" if "total_probes s = Some 0"
    using that by (simp add: setSummaryFromApi_def)
  have e: "\<exists>l. setSummaryFromApi (Some s) = Line l \<and> line_pct l = Some (real k / real n * 100)"
    if "total_probes s = Some n \<and> 0 < n \<and> success_count s = Some k"
    using that by (simp add: setSummaryFromApi_def Let_def js_div_def)
  have f: "line_pct l \<noteq> None \<and> line_avg l \<noteq> None" if "setSummary probes = Line l"
  proof -
    have "probes \<noteq> []" using that by (auto simp: setSummary_def)
    then show ?thesis
      using that by (auto simp: setSummary_def Let_def js_div_def split: if_splits)
  qed
  have g: "success_count s = None" if "setSummaryFromApi (Some s) = Line l \<and> line_pct l = None"
    using that
    by (auto simp: setSummaryFromApi_def Let_def js_div_def split: if_splits option.splits)
  show ?thesis
    using a b c d e f g js_div_None [of a b] by (intro conjI impI) simp_all
qed

theorem uptime_needs_probes_witness:
  "[\<lparr>ts = 0, ok = True, duration_ms = Some 12\<rparr>, \<lparr>ts = 60000, ok = False, duration_ms = None\<rparr>] \<noteq> []
   \<and> (\<exists>l. setSummary [\<lparr>ts = 0, ok = True, duration_ms = Some 12\<rparr>,
                        \<lparr>ts = 60000, ok = False, duration_ms = None\<rparr>] = Line l
          \<and> line_pct l = Some 50 \<and> line_avg l \<noteq> None)
   \<and> setSummaryFromApi
        (Some \<lparr>total_probes = Some 0, success_count = Some 0, avg_ms = None, p95_ms = None\<rparr>)
       = NoProbeData
   \<and> (\<exists>l. setSummaryFromApi
        (Some \<lparr>total_probes = Some 4, success_count = Some 3, avg_ms = Some 20, p95_ms = Some 31\<rparr>)
       = Line l \<and> line_pct l = Some 75)
   \<and> (\<exists>l. setSummaryFromApi
        (Some \<lparr>total_probes = Some 4, success_count = None, avg_ms = Some 20, p95_ms = Some 31\<rparr>)
       = Line l \<and> line_pct l = None)"
proof -
  let ?ps = "[\<lparr>ts = 0, ok = True, duration_ms = Some 12\<rparr>,
              \<lparr>ts = 60000, ok = False, duration_ms = None\<rparr>]"
  let ?s0 = "\<lparr>total_probes = Some 0, success_count = Some 0, avg_ms = None, p95_ms = None\<rparr>"
  let ?s4 = "\<lparr>total_probes = Some 4, success_count = Some 3, avg_ms = Some 20, p95_ms = Some 31\<rparr>"
  let ?sm = "\<lparr>total_probes = Some 4, success_count = None, avg_ms = Some 20, p95_ms = Some 31\<rparr>"
  have ne: "?ps \<noteq> []" by simp
  obtain l where l: "setSummary ?ps = Line l" "line_pct l = Some 50"
    using uptime_needs_probes [of ?ps s n k a b l0] by auto
  have "line_avg l \<noteq> None"
    using uptime_needs_probes [of ?ps s n k a b l] l by blast
  then have p: "\<exists>l. setSummary ?ps = Line l \<and> line_pct l = Some 50 \<and> line_avg l \<noteq> None"
    using l by blast
  have z: "setSummaryFromApi (Some ?s0) = NoProbeData"
    using uptime_needs_probes [of probes ?s0 n k a b l] by simp
  have q: "\<exists>l. setSummaryFromApi (Some ?s4) = Line l \<and> line_pct l = Some 75"
    using uptime_needs_probes [of probes ?s4 4 3 a b l] by simp
  have m: "\<exists>l. setSummaryFromApi (Some ?sm) = Line l \<and> line_pct l = None"
    by (simp add: setSummaryFromApi_def)
  show ?thesis
    using ne p z q m by (intro conjI)
qed

section \<open>Properties of the alerting state machine\<close>

subsection \<open>Recovery after two consecutive UP probes\<close>

lemma run_events_append:
  "run_events s (xs @ ys) = run_events s xs @ run_events (run_state s xs) ys"
  by (induction xs arbitrary: s) simp_all

lemma run_state_append: "run_state s (xs @ ys) = run_state (run_state s xs) ys"
  by (induction xs arbitrary: s) simp_all

lemma length_run_events: "length (run_events s xs) = length xs"
  by (induction xs arbitrary: s) simp_all

lemma run_events_at:
  "run_events s (pre @ r # post) ! length pre = snd (transition (run_state s pre) r)"
  by (simp add: run_events_append nth_append length_run_events)

lemma ends_down_up_snoc:
  "(\<exists>q. pre @ [x] = q @ [False, True]) = (x \<and> pre \<noteq> [] \<and> \<not> last pre)"
proof
  assume "\<exists>q. pre @ [x] = q @ [False, True]"
  then obtain q where "pre @ [x] = (q @ [False]) @ [True]" by auto
  then have "pre = q @ [False]" "x = True" by (simp_all only: append1_eq_conv)
  then show "x \<and> pre \<noteq> [] \<and> \<not> last pre" by simp
next
  assume h: "x \<and> pre \<noteq> [] \<and> \<not> last pre"
  then have "pre = butlast pre @ [False]"
    by (metis append_butlast_last_id)
  then have "pre @ [x] = butlast pre @ [False, True]"
    using h by (metis append.assoc append_Cons append_Nil)
  then show "\<exists>q. pre @ [x] = q @ [False, True]" by blast
qed

lemma run_state_invariant:
  "(current (run_state initial_state pre) = DOWN) = (pre \<noteq> [] \<and> \<not> last pre)
   \<and> pendingRecovery (run_state initial_state pre) = (\<exists>q. pre = q @ [False, True])
   \<and> (pendingRecovery (run_state initial_state pre)
        \<longrightarrow> consecutiveUpCount (run_state initial_state pre) = 1)"
proof (induction pre rule: rev_induct)
  case Nil
  then show ?case by (simp add: initial_state_def)
next
  case (snoc x pre)
  let ?st = "run_state initial_state pre"
  have step: "run_state initial_state (pre @ [x]) = fst (transition ?st x)"
    by (simp add: run_state_append)
  have pend: "pendingRecovery ?st \<Longrightarrow> pre \<noteq> [] \<and> last pre"
    using snoc by auto
  show ?case
    unfolding step ends_down_up_snoc
    using snoc pend
    by (cases "current ?st") (auto simp: transition_def Let_def)
qed

lemma run_events_steady:
  "current s = UP \<Longrightarrow> \<not> pendingRecovery s \<Longrightarrow> run_events s (replicate n True) = replicate n None"
  by (induction n) (simp_all add: transition_def)

text \<open>
  Claim C1. For every probe sequence applied to a target from its initial state, the
  probe at any position emits \<open>Recovered\<close> exactly when it is UP and the probes before
  it end with a DOWN followed by one UP, that is, exactly on the second consecutive UP
  after a DOWN: never on the first UP, and never on a later one while no DOWN
  intervenes. From any state, a DOWN followed by UP probes emits nothing on the first
  UP, \<open>Recovered\<close> on the second, and nothing on the later ones; the first UP after a
  DOWN only sets \<open>pendingRecovery\<close> and \<open>consecutiveUpCount = 1\<close>.
\<close>

theorem recovered_on_second_up:
  "(run_events initial_state (pre @ r # post) ! length pre = Some Recovered)
     = (r \<and> (\<exists>q. pre = q @ [False, True]))
   \<and> run_events s (False # True # True # replicate n True)
       = (if current s = UP then Some WentDown else None) # None # Some Recovered # replicate n None
   \<and> transition (s\<lparr>current := DOWN\<rparr>) True
       = (s\<lparr>current := UP, pendingRecovery := True, consecutiveUpCount := 1\<rparr>, None)"
proof -
  let ?st = "run_state initial_state pre"
  note inv = run_state_invariant [of pre]
  have pend: "pendingRecovery ?st \<Longrightarrow> current ?st = UP"
    using inv by (cases "current ?st") auto
  have "(snd (transition ?st r) = Some Recovered) = (r \<and> pendingRecovery ?st)"
    using inv pend by (cases "current ?st") (auto simp: transition_def Let_def)
  then have a: "(run_events initial_state (pre @ r # post) ! length pre = Some Recovered)
     = (r \<and> (\<exists>q. pre = q @ [False, True]))"
    using inv by (simp add: run_events_at)
  have b: "run_events s (False # True # True # replicate n True)
       = (if current s = UP then Some WentDown else None) # None # Some Recovered # replicate n None"
    by (simp add: transition_def Let_def run_events_steady)
  have c: "transition (s\<lparr>current := DOWN\<rparr>) True
       = (s\<lparr>current := UP, pendingRecovery := True, consecutiveUpCount := 1\<rparr>, None)"
    by (simp add: transition_def)
  show ?thesis
    using a b c by blast
qed

subsection \<open>The cooldown of DOWN alerts\<close>

lemma transition_keeps_lastAlertSentAt:
  "lastAlertSentAt (fst (transition s r)) = lastAlertSentAt s"
  by (simp add: transition_def Let_def)

lemma run_state_keeps_lastAlertSentAt:
  "lastAlertSentAt (run_state s rs) = lastAlertSentAt s"
  by (induction rs arbitrary: s) (simp_all add: transition_keeps_lastAlertSentAt)

text \<open>
  The cooldown has elapsed when exactly 300 seconds have passed: the comparison of
  \<open>onWentDown\<close> is strict.
\<close>

lemma cooldown_boundary:
  "down_alerts \<lparr>webhookUrl = Some ''hook'', cooldown = 300\<rparr> initial_state [0, 300] = 2"
  by (simp add: onWentDown_def initial_state_def)

text \<open>
  Claim C2. With alerts enabled and a cooldown of 300 seconds, two UP-to-DOWN
  transitions of one target less than 300 seconds apart send at most one DOWN
  notification: when the first is sent, the second is suppressed and the state is left
  as it is. A transition followed 301 seconds later by another sends two notifications,
  for a target that has sent no alert before and whenever the first of the two is sent.
  What happens between the two transitions does not matter: neither the probes applied
  to the state nor \<open>onRecovered\<close> change \<open>lastAlertSentAt\<close>.
\<close>

theorem cooldown_two_downs:
  "webhookUrl cfg \<noteq> None \<and> cooldown cfg = 300 \<longrightarrow>
     (t2 - t1 < 300 \<longrightarrow>
        down_alerts cfg s [t1, t2] \<le> 1
        \<and> (snd (onWentDown cfg s t1) \<longrightarrow>
             onWentDown cfg (fst (onWentDown cfg s t1)) t2 = (fst (onWentDown cfg s t1), False)))
     \<and> (lastAlertSentAt s = None \<longrightarrow> down_alerts cfg s [t1, t1 + 301] = 2)
     \<and> (snd (onWentDown cfg s t1) \<longrightarrow> down_alerts cfg s [t1, t1 + 301] = 2)
     \<and> lastAlertSentAt (run_state s rs) = lastAlertSentAt s
     \<and> fst (onRecovered cfg s t1) = s"
proof (intro impI, elim conjE)
  assume hook: "webhookUrl cfg \<noteq> None" and cd: "cooldown cfg = 300"
  have close: "down_alerts cfg s [t1, t2] \<le> 1
        \<and> (snd (onWentDown cfg s t1) \<longrightarrow>
             onWentDown cfg (fst (onWentDown cfg s t1)) t2 = (fst (onWentDown cfg s t1), False))"
    if "t2 - t1 < 300"
    using hook cd that by (cases "lastAlertSentAt s") (auto simp: onWentDown_def)
  have fresh: "down_alerts cfg s [t1, t1 + 301] = 2" if "lastAlertSentAt s = None"
    using hook cd that by (auto simp: onWentDown_def)
  have later: "down_alerts cfg s [t1, t1 + 301] = 2" if "snd (onWentDown cfg s t1)"
    using hook cd that by (cases "lastAlertSentAt s") (auto simp: onWentDown_def split: if_splits)
  have rec: "fst (onRecovered cfg s t1) = s"
    by (simp add: onRecovered_def)
  show "(t2 - t1 < 300 \<longrightarrow>
        down_alerts cfg s [t1, t2] \<le> 1
        \<and> (snd (onWentDown cfg s t1) \<longrightarrow>
             onWentDown cfg (fst (onWentDown cfg s t1)) t2 = (fst (onWentDown cfg s t1), False)))
     \<and> (lastAlertSentAt s = None \<longrightarrow> down_alerts cfg s [t1, t1 + 301] = 2)
     \<and> (snd (onWentDown cfg s t1) \<longrightarrow> down_alerts cfg s [t1, t1 + 301] = 2)
     \<and> lastAlertSentAt (run_state s rs) = lastAlertSentAt s
     \<and> fst (onRecovered cfg s t1) = s"
    using close fresh later rec run_state_keeps_lastAlertSentAt [of s rs]
    by (intro conjI impI) simp_all
qed

theorem cooldown_two_downs_witness:
  "webhookUrl \<lparr>webhookUrl = Some ''https://hooks.example/teams'', cooldown = default_cooldown\<rparr> \<noteq> None
   \<and> cooldown \<lparr>webhookUrl = Some ''https://hooks.example/teams'', cooldown = default_cooldown\<rparr> = 300
   \<and> (1000 + 299 :: real) - 1000 < 300
   \<and> lastAlertSentAt initial_state = None
   \<and> snd (onWentDown \<lparr>webhookUrl = Some ''https://hooks.example/teams'', cooldown = default_cooldown\<rparr>
            initial_state 1000)
   \<and> down_alerts \<lparr>webhookUrl = Some ''https://hooks.example/teams'', cooldown = default_cooldown\<rparr>
        initial_state [1000, 1000 + 299] = 1
   \<and> down_alerts \<lparr>webhookUrl = Some ''https://hooks.example/teams'', cooldown = default_cooldown\<rparr>
        initial_state [1000, 1000 + 301] = 2"
proof -
  let ?cfg = "\<lparr>webhookUrl = Some ''https://hooks.example/teams'', cooldown = default_cooldown\<rparr>"
  have hook: "webhookUrl ?cfg \<noteq> None" by simp
  have cd: "cooldown ?cfg = 300" by (simp add: default_cooldown_def)
  have near: "(1000 + 299 :: real) - 1000 < 300" by simp
  have fresh: "lastAlertSentAt initial_state = None" by (simp add: initial_state_def)
  have sent: "snd (onWentDown ?cfg initial_state 1000)"
    by (simp add: onWentDown_def initial_state_def)
  note th = cooldown_two_downs [of ?cfg "1000 + 299" 1000 initial_state "[]"]
  have le: "down_alerts ?cfg initial_state [1000, 1000 + 299] \<le> 1"
    using th hook cd near by blast
  have "1 \<le> down_alerts ?cfg initial_state [1000, 1000 + 299]"
    using sent by simp
  then have one: "down_alerts ?cfg initial_state [1000, 1000 + 299] = 1"
    using le by simp
  have two: "down_alerts ?cfg initial_state [1000, 1000 + 301] = 2"
    using th hook cd fresh by blast
  show ?thesis
    using hook cd near fresh sent one two by (intro conjI)
qed

end
